theory Spec2Isabelle
  imports Main
begin

section \<open>Strings and console output\<close>

text \<open>
  A Python \<^verbatim>\<open>str\<close> is the list of its Unicode code points. \<open>lit\<close> gives the value of
  a string literal of the source, whose characters are all ASCII. The console is the list
  of texts written to standard output, in order: one entry per \<^verbatim>\<open>print\<close> call and
  one per prompt of \<^verbatim>\<open>input\<close>.
\<close>

type_synonym codepoint = nat

type_synonym str = "codepoint list"

definition lit :: "string \<Rightarrow> str" where
  "lit s = map of_char s"

type_synonym console = "str list"

definition digit_char :: "nat \<Rightarrow> codepoint" where
  "digit_char d = of_char CHR ''0'' + d"

text \<open>The decimal text of a non-negative integer, as an f-string field prints it.\<close>

function str_nat :: "nat \<Rightarrow> str" where
  "str_nat n = (if n < 10 then [digit_char n] else str_nat (n div 10) @ [digit_char (n mod 10)])"
  by pat_completeness auto
termination
  by (relation "measure (\<lambda>n. n)") auto

text \<open>
  The properties of code points come from the Unicode character database built into the
  interpreter. Below 128 they are fixed and written out here; from 128 on the database
  is a parameter of the model: which code points are whitespace, and the uppercase
  mapping of a code point, which may be several code points long.
\<close>

record unicode_data =
  nonascii_isspace :: "codepoint \<Rightarrow> bool"
  nonascii_upper :: "codepoint \<Rightarrow> str"

text \<open>
  \<^verbatim>\<open>str.isspace\<close> for one code point: below 128 these are the code points 9 to 13, 28
  to 31 and the space.
\<close>

definition isspace :: "unicode_data \<Rightarrow> codepoint \<Rightarrow> bool" where
  "isspace ud c =
     (if c < 128 then (9 \<le> c \<and> c \<le> 13) \<or> (28 \<le> c \<and> c \<le> 32) else nonascii_isspace ud c)"

text \<open>\<^verbatim>\<open>str.strip()\<close>: leading and trailing whitespace removed.\<close>

definition strip :: "unicode_data \<Rightarrow> str \<Rightarrow> str" where
  "strip ud s = rev (dropWhile (isspace ud) (rev (dropWhile (isspace ud) s)))"

text \<open>
  \<^verbatim>\<open>str.upper()\<close> replaces every code point by its uppercase mapping: below 128 the
  letters a to z become A to Z and every other code point stays.
\<close>

definition upper_char :: "unicode_data \<Rightarrow> codepoint \<Rightarrow> str" where
  "upper_char ud c =
     (if c < 128 then [if 97 \<le> c \<and> c \<le> 122 then c - 32 else c] else nonascii_upper ud c)"

definition upper :: "unicode_data \<Rightarrow> str \<Rightarrow> str" where
  "upper ud s = concat (map (upper_char ud) s)"

text \<open>
  \<^verbatim>\<open>str.lower()\<close> on the letters A to Z. The program only asks whether the lowered
  path ends in \<^verbatim>\<open>.pptx\<close>, and no code point from 128 on has one of these five characters in
  its lowercase mapping, so such code points are left as they are.
\<close>

definition lower_char :: "codepoint \<Rightarrow> codepoint" where
  "lower_char c = (if 65 \<le> c \<and> c \<le> 90 then c + 32 else c)"

definition lower :: "str \<Rightarrow> str" where
  "lower s = map lower_char s"

definition endswith :: "str \<Rightarrow> str \<Rightarrow> bool" where
  "endswith s suffix =
     (length suffix \<le> length s \<and> drop (length s - length suffix) s = suffix)"

section \<open>Shapes\<close>

text \<open>
  Modelled from the spec: the enumeration \<^verbatim>\<open>MSO_SHAPE_TYPE\<close> belongs to the document
  library; the program compares a shape's type with its members \<^verbatim>\<open>PICTURE\<close> and
  \<^verbatim>\<open>GROUP\<close> only, every other member is \<open>OTHER\<close>.
\<close>

datatype MSO_SHAPE_TYPE = PICTURE | GROUP | OTHER

record Hyperlink =
  address :: "str option"

record ActionSetting =
  hyperlink :: "Hyperlink option"

text \<open>
  A shape proxies one element of the document tree; \<open>ident\<close> is the identity of that
  element. Two shape objects are equal in the library exactly when they proxy the same
  element. \<open>shapes\<close> is the child sequence of a group shape.
\<close>

datatype shape =
  Shape (ident: nat) (shape_type: MSO_SHAPE_TYPE) (name: str)
        (click_action: "ActionSetting option") (shapes: "shape list")

text \<open>
  The test \<^verbatim>\<open>s.click_action and s.click_action.hyperlink and s.click_action.hyperlink.address\<close>:
  each operand is tested for truth in turn, \<^verbatim>\<open>None\<close> and the empty string being
  false. The result is the address when the whole conjunction is true.
\<close>

definition link_address :: "shape \<Rightarrow> str option" where
  "link_address s =
     (case click_action s of
        None \<Rightarrow> None
      | Some a \<Rightarrow>
          (case hyperlink a of
             None \<Rightarrow> None
           | Some h \<Rightarrow>
               (case address h of
                  None \<Rightarrow> None
                | Some ad \<Rightarrow> if ad = [] then None else Some ad)))"

text \<open>\<^verbatim>\<open>shape in shapes_to_remove\<close>: list membership by the library's shape equality.\<close>

definition shape_in :: "shape \<Rightarrow> shape list \<Rightarrow> bool" where
  "shape_in s xs = (ident s \<in> set (map ident xs))"

section \<open>The scanner\<close>

definition found_picture_msg :: "shape \<Rightarrow> str \<Rightarrow> str" where
  "found_picture_msg s ad =
     lit ''Found picture with hyperlink: '' @ ad @ lit '' on shape '' @ [0x27] @
       (if name s \<noteq> [] then name s else lit ''Unnamed Picture'') @ [0x27]"

definition found_in_group_msg :: "shape \<Rightarrow> str \<Rightarrow> str" where
  "found_in_group_msg g ad =
     lit ''Found picture with hyperlink within group '' @ [0x27] @ name g @ [0x27] @
       lit '': '' @ ad"

text \<open>
  The inner loop over the children of group \<open>g\<close> (source lines 28 to 36). It threads
  the worklist and the console; the \<^verbatim>\<open>break\<close> is the branch without a recursive call.
\<close>

fun scan_group :: "shape \<Rightarrow> shape list \<Rightarrow> shape list \<Rightarrow> console \<Rightarrow> shape list \<times> console" where
  "scan_group g [] shapes_to_remove out = (shapes_to_remove, out)"
| "scan_group g (sub_shape # rest) shapes_to_remove out =
     (if shape_type sub_shape = PICTURE then
        (case link_address sub_shape of
           Some ad \<Rightarrow>
             (if \<not> shape_in g shapes_to_remove then shapes_to_remove @ [g] else shapes_to_remove,
              out @ [found_in_group_msg g ad])
         | None \<Rightarrow> scan_group g rest shapes_to_remove out)
      else scan_group g rest shapes_to_remove out)"

text \<open>The outer loop over the collection (source lines 11 to 36).\<close>

fun scan :: "shape list \<Rightarrow> shape list \<Rightarrow> console \<Rightarrow> shape list \<times> console" where
  "scan [] shapes_to_remove out = (shapes_to_remove, out)"
| "scan (s # rest) shapes_to_remove out =
     (if shape_type s = PICTURE then
        (case link_address s of
           Some ad \<Rightarrow> scan rest (shapes_to_remove @ [s]) (out @ [found_picture_msg s ad])
         | None \<Rightarrow> scan rest shapes_to_remove out)
      else if shape_type s = GROUP then
        (case scan_group s (shapes s) shapes_to_remove out of
           (shapes_to_remove', out') \<Rightarrow> scan rest shapes_to_remove' out')
      else scan rest shapes_to_remove out)"

text \<open>The removal worklist the first pass builds for a collection.\<close>

definition worklist :: "shape list \<Rightarrow> shape list" where
  "worklist shapes_collection = fst (scan shapes_collection [] [])"

section \<open>Detaching the worklist\<close>

text \<open>
  The collection is a live view of the children of one container element, so the
  container is modelled by its child sequence. \<^verbatim>\<open>element.getparent()\<close> is the container
  for an element among its children and \<^verbatim>\<open>None\<close> for a detached element; in the
  second case \<^verbatim>\<open>.remove\<close> raises \<^verbatim>\<open>AttributeError\<close>, which the handler prints.
\<close>

definition has_parent :: "shape list \<Rightarrow> shape \<Rightarrow> bool" where
  "has_parent tree s = shape_in s tree"

fun remove_element :: "shape \<Rightarrow> shape list \<Rightarrow> shape list" where
  "remove_element s [] = []"
| "remove_element s (t # ts) = (if ident t = ident s then ts else t # remove_element s ts)"

definition removed_msg :: str where
  "removed_msg = lit ''Successfully removed shape.''"

definition could_not_remove_msg :: str where
  "could_not_remove_msg =
     lit ''Could not remove shape: '' @ [0x27] @ lit ''NoneType'' @ [0x27] @
       lit '' object has no attribute '' @ [0x27] @ lit ''remove'' @ [0x27]"

text \<open>The loop of source lines 40 to 46: every iteration is one try/except.\<close>

fun remove_shapes :: "shape list \<Rightarrow> shape list \<Rightarrow> console \<Rightarrow> shape list \<times> console" where
  "remove_shapes [] tree out = (tree, out)"
| "remove_shapes (shape_to_remove # rest) tree out =
     (if has_parent tree shape_to_remove then
        remove_shapes rest (remove_element shape_to_remove tree) (out @ [removed_msg])
      else remove_shapes rest tree (out @ [could_not_remove_msg]))"

text \<open>
  What a caller observes as the value of a call. The functions of this program have no
  \<^verbatim>\<open>return\<close> with a value, so the only value they produce is \<^verbatim>\<open>None\<close>.
\<close>

datatype py_value = PyNone | PyInt int | PyTuple "py_value list"

record removal =
  tree_after :: "shape list"
  stdout :: console
  returned :: py_value

definition attempting_msg :: "nat \<Rightarrow> str" where
  "attempting_msg n = lit ''Attempting to remove '' @ str_nat n @ lit '' shapes...''"

definition none_found_msg :: str where
  "none_found_msg = lit ''No hyperlinked pictures found in this collection.''"

definition remove_hyperlinked_pictures_from_shapes :: "shape list \<Rightarrow> removal" where
  "remove_hyperlinked_pictures_from_shapes shapes_collection =
     (case scan shapes_collection [] [] of
        (shapes_to_remove, out) \<Rightarrow>
          if shapes_to_remove \<noteq> [] then
            (case remove_shapes shapes_to_remove shapes_collection
                    (out @ [attempting_msg (length shapes_to_remove)]) of
               (tree, out') \<Rightarrow> \<lparr>tree_after = tree, stdout = out', returned = PyNone\<rparr>)
          else
            \<lparr>tree_after = shapes_collection, stdout = out @ [none_found_msg], returned = PyNone\<rparr>)"


section \<open>The presentation and the run of the program\<close>

record slide_layout =
  layout_shapes :: "shape list"

record slide_master =
  master_shapes :: "shape list"
  slide_layouts :: "slide_layout list"

record presentation =
  slide_masters :: "slide_master list"

text \<open>
  What the program takes from its surroundings, as parameters of the model: the functions
  of \<^verbatim>\<open>os.path\<close> it calls (they depend on the platform, the file system and the
  working directory), the document library's \<^verbatim>\<open>Presentation(path)\<close>, which returns
  the document or raises an exception with a text, and \<^verbatim>\<open>prs.save(path)\<close>, which
  returns or raises an exception with a text.
\<close>

record environment =
  path_exists :: "str \<Rightarrow> bool"
  abspath :: "str \<Rightarrow> str"
  splitext :: "str \<Rightarrow> str \<times> str"
  Presentation :: "str \<Rightarrow> str + presentation"
  save :: "presentation \<Rightarrow> str \<Rightarrow> str option"
  unicode :: unicode_data

text \<open>
  An exception that leaves the program: \<^verbatim>\<open>input\<close> raises \<^verbatim>\<open>EOFError\<close> when standard
  input has no further line, and no handler of the program catches it.
\<close>

datatype error = EOFError

definition quoted :: "str \<Rightarrow> str" where
  "quoted s = [0x27] @ s @ [0x27]"

definition layout_msg :: "nat \<Rightarrow> nat \<Rightarrow> str" where
  "layout_msg j i =
     [0x0A] @ lit ''Processing Slide Layout '' @ str_nat (j + 1) @ lit '' (from Master '' @
       str_nat (i + 1) @ lit '')...''"

text \<open>The loop over the layouts of master \<open>i\<close> (source lines 74 to 76).\<close>

fun process_layouts :: "nat \<Rightarrow> nat \<Rightarrow> slide_layout list \<Rightarrow> console \<Rightarrow> slide_layout list \<times> console" where
  "process_layouts i j [] out = ([], out)"
| "process_layouts i j (slide_layout # rest) out =
     (let r = remove_hyperlinked_pictures_from_shapes (layout_shapes slide_layout) in
      case process_layouts i (j + 1) rest (out @ [layout_msg j i] @ stdout r) of
        (rest', out') \<Rightarrow> (slide_layout\<lparr>layout_shapes := tree_after r\<rparr> # rest', out'))"

definition master_msg :: "nat \<Rightarrow> str" where
  "master_msg i = [0x0A] @ lit ''Processing Slide Master '' @ str_nat (i + 1) @ lit ''...''"

definition layouts_header_msg :: "nat \<Rightarrow> nat \<Rightarrow> str" where
  "layouts_header_msg n i =
     [0x0A] @ lit ''--- Processing '' @ str_nat n @ lit '' Slide Layout(s) for Master '' @
       str_nat (i + 1) @ lit '' ---''"

definition no_layouts_msg :: "nat \<Rightarrow> str" where
  "no_layouts_msg i = lit ''No slide layouts found for Master '' @ str_nat (i + 1) @ lit ''.''"

text \<open>The loop over the slide masters (source lines 67 to 78).\<close>

fun process_masters :: "nat \<Rightarrow> slide_master list \<Rightarrow> console \<Rightarrow> slide_master list \<times> console" where
  "process_masters i [] out = ([], out)"
| "process_masters i (slide_master # rest) out =
     (let r = remove_hyperlinked_pictures_from_shapes (master_shapes slide_master);
          out1 = out @ [master_msg i] @ stdout r in
      case (if slide_layouts slide_master \<noteq> [] then
              process_layouts i 0 (slide_layouts slide_master)
                (out1 @ [layouts_header_msg (length (slide_layouts slide_master)) i])
            else (slide_layouts slide_master, out1 @ [no_layouts_msg i])) of
        (layouts', out2) \<Rightarrow>
          (case process_masters (i + 1) rest out2 of
             (rest', out3) \<Rightarrow>
               (\<lparr>master_shapes = tree_after r, slide_layouts = layouts'\<rparr> # rest', out3)))"

definition masters_header_msg :: "nat \<Rightarrow> str" where
  "masters_header_msg n =
     [0x0A] @ lit ''--- Processing '' @ str_nat n @ lit '' Slide Master(s) ---''"

definition no_masters_msg :: str where
  "no_masters_msg = lit ''No slide masters found in the presentation.''"

definition choice_prompt :: str where
  "choice_prompt =
     lit ''Do you want to overwrite the original file (O) or save as a new file (S)? [O/S]: ''"

definition name_prompt :: "str \<Rightarrow> str" where
  "name_prompt default_new_path =
     lit ''Enter new file name (default: '' @ default_new_path @ lit ''): ''"

definition same_name_msg :: str where
  "same_name_msg =
     lit ''Error: New file name cannot be the same as the original if not overwriting. '' @
     lit ''Please choose a different name.''"

definition invalid_choice_msg :: str where
  "invalid_choice_msg =
     lit ''Invalid choice. Please enter '' @ quoted (lit ''O'') @ lit '' or '' @ quoted (lit ''S'') @ lit ''.''"

text \<open>
  Source lines 89 and 90: the default name of the new file, from the two parts
  \<^verbatim>\<open>os.path.splitext\<close> gives for the input path.
\<close>

definition default_new_path :: "environment \<Rightarrow> str \<Rightarrow> str" where
  "default_new_path env input_path =
     (case splitext env input_path of (base, ext) \<Rightarrow> base @ lit ''_modified'' @ ext)"

text \<open>Source lines 91 and 92: the output path for the line read at the second prompt.\<close>

definition new_output_path :: "environment \<Rightarrow> str \<Rightarrow> str \<Rightarrow> str" where
  "new_output_path env input_path line =
     (let new_path_input = strip (unicode env) line in
      if new_path_input \<noteq> [] then new_path_input else default_new_path env input_path)"

text \<open>
  The loop of source lines 83 to 98. Standard input is the list of the lines still to be
  read. The loop ends with the values of \<^verbatim>\<open>choice\<close> and \<^verbatim>\<open>output_path\<close>, or with the
  exception of an \<^verbatim>\<open>input\<close> call; \<^verbatim>\<open>continue\<close> and the fall through the last
  branch are the recursive calls.
\<close>

fun save_prompt :: "environment \<Rightarrow> str \<Rightarrow> str list \<Rightarrow> console \<Rightarrow> (error + str \<times> str) \<times> console" where
  "save_prompt env input_path [] out = (Inl EOFError, out @ [choice_prompt])"
| "save_prompt env input_path (line # rest) out =
     (let choice = upper (unicode env) (strip (unicode env) line) in
      if choice = lit ''O'' then (Inr (choice, input_path), out @ [choice_prompt])
      else if choice = lit ''S'' then
        (case rest of
           [] \<Rightarrow>
             (Inl EOFError,
              out @ [choice_prompt, name_prompt (default_new_path env input_path)])
         | line2 # rest2 \<Rightarrow>
             (let output_path = new_output_path env input_path line2 in
              if abspath env output_path = abspath env input_path then
                save_prompt env input_path rest2
                  (out @ [choice_prompt, name_prompt (default_new_path env input_path),
                          same_name_msg])
              else
                (Inr (choice, output_path),
                 out @ [choice_prompt, name_prompt (default_new_path env input_path)])))
      else save_prompt env input_path rest (out @ [choice_prompt, invalid_choice_msg]))"

text \<open>
  What a run leaves behind: the console, the path given to \<^verbatim>\<open>prs.save\<close> if it was
  called, the file written if the call succeeded, and the exception that ended the run
  if one did.
\<close>

record run =
  printed :: console
  save_call :: "str option"
  written :: "(str \<times> presentation) option"
  raised :: "error option"

definition process_presentation :: "environment \<Rightarrow> str \<Rightarrow> str list \<Rightarrow> run" where
  "process_presentation env input_path lines =
     (case Presentation env input_path of
        Inl e \<Rightarrow>
          \<lparr>printed = [lit ''Error opening presentation '' @ quoted input_path @ lit '': '' @ e],
           save_call = None, written = None, raised = None\<rparr>
      | Inr prs \<Rightarrow>
          (case (if slide_masters prs \<noteq> [] then
                   process_masters 0 (slide_masters prs)
                     [lit ''Processing presentation: '' @ input_path,
                      masters_header_msg (length (slide_masters prs))]
                 else (slide_masters prs,
                       [lit ''Processing presentation: '' @ input_path, no_masters_msg])) of
             (masters', out) \<Rightarrow>
               (case save_prompt env input_path lines out of
                  (Inl err, out') \<Rightarrow>
                    \<lparr>printed = out', save_call = None, written = None, raised = Some err\<rparr>
                | (Inr (choice, output_path), out') \<Rightarrow>
                    (case save env \<lparr>slide_masters = masters'\<rparr> output_path of
                       None \<Rightarrow>
                         \<lparr>printed = out' @ [lit ''Presentation saved to: '' @ output_path],
                          save_call = Some output_path,
                          written = Some (output_path, \<lparr>slide_masters = masters'\<rparr>),
                          raised = None\<rparr>
                     | Some e \<Rightarrow>
                         \<lparr>printed = out' @ [lit ''Error saving presentation to '' @
                                      quoted output_path @ lit '': '' @ e],
                          save_call = Some output_path, written = None, raised = None\<rparr>))))"

definition not_found_msg :: "str \<Rightarrow> str" where
  "not_found_msg input_file = lit ''Error: Input file '' @ quoted input_file @ lit '' not found.''"

definition not_pptx_msg :: "str \<Rightarrow> str" where
  "not_pptx_msg input_file =
     lit ''Error: Input file '' @ quoted input_file @ lit '' is not a .pptx file.''"

text \<open>
  The script body (source lines 112 to 117) with the exit status of the interpreter: the
  program never calls \<^verbatim>\<open>sys.exit\<close>, so the status is 0 when the script runs to its
  end and 1 when an exception leaves it.
\<close>

definition main :: "environment \<Rightarrow> str \<Rightarrow> str list \<Rightarrow> run \<times> nat" where
  "main env input_file lines =
     (if \<not> path_exists env input_file then
        (\<lparr>printed = [not_found_msg input_file], save_call = None, written = None,
          raised = None\<rparr>, 0)
      else if \<not> endswith (lower input_file) (lit ''.pptx'') then
        (\<lparr>printed = [not_pptx_msg input_file], save_call = None, written = None,
          raised = None\<rparr>, 0)
      else
        (let r = process_presentation env input_file lines in
         (r, case raised r of None \<Rightarrow> 0 | Some e \<Rightarrow> 1)))"

section \<open>Which shapes the scanner selects\<close>

text \<open>A picture whose hyperlink address is a non-empty string.\<close>

definition linked_picture :: "shape \<Rightarrow> bool" where
  "linked_picture s = (shape_type s = PICTURE \<and> link_address s \<noteq> None)"

text \<open>
  A top-level shape is marked when it is a linked picture, or a group with a linked
  picture among its immediate children.
\<close>

definition marked :: "shape \<Rightarrow> bool" where
  "marked s = (linked_picture s \<or> (shape_type s = GROUP \<and> list_ex linked_picture (shapes s)))"

section \<open>Example shapes\<close>

text \<open>Shapes with ASCII names and addresses, given as literals.\<close>

definition picture :: "nat \<Rightarrow> string \<Rightarrow> string option \<Rightarrow> shape" where
  "picture i n ad =
     Shape i PICTURE (lit n) (Some \<lparr>hyperlink = Some \<lparr>address = map_option lit ad\<rparr>\<rparr>) []"

definition picture_no_action :: "nat \<Rightarrow> string \<Rightarrow> shape" where
  "picture_no_action i n = Shape i PICTURE (lit n) None []"

definition text_box :: "nat \<Rightarrow> string \<Rightarrow> shape" where
  "text_box i n = Shape i OTHER (lit n) None []"

definition group_shape :: "nat \<Rightarrow> string \<Rightarrow> shape list \<Rightarrow> shape" where
  "group_shape i n children = Shape i GROUP (lit n) None children"

text \<open>
  A collection with one linked picture, a text box, and three pictures that carry no
  usable address: an empty one, an absent one, and no click action at all.
\<close>

definition pictures_example :: "shape list" where
  "pictures_example =
     [picture 1 ''Logo'' (Some ''http://x''), text_box 2 ''Title'',
      picture 3 ''Empty'' (Some []), picture 4 ''Absent'' None,
      picture_no_action 5 ''Plain'']"

text \<open>A group whose second and third children are linked pictures.\<close>

definition badge_group :: shape where
  "badge_group =
     group_shape 1 ''Badge''
       [text_box 2 ''Caption'', picture 3 ''First'' (Some ''http://y''),
        picture 4 ''Second'' (Some ''http://z''), text_box 5 ''Footer'']"

text \<open>
  A group with no linked picture among its children, but with one inside a nested
  group, two levels down.
\<close>

definition outer_group :: shape where
  "outer_group =
     group_shape 1 ''Outer''
       [group_shape 2 ''Inner'' [picture 3 ''Deep'' (Some ''http://deep'')],
        text_box 4 ''Label'']"

text \<open>The top-level shapes of a slide master: a group and a picture to remove, two shapes to keep.\<close>

definition master_example :: "shape list" where
  "master_example =
     [badge_group, picture 6 ''Logo'' (Some ''http://x''), text_box 7 ''Title'',
      picture 8 ''Empty'' (Some [])]"

text \<open>
  A character database for the examples. Its whitespace from 128 on is that of the
  interpreter's database: the next-line and no-break space controls and the spaces of
  the general punctuation block. Its uppercase mapping sends the long s to \<^verbatim>\<open>S\<close> and
  the sharp s to \<^verbatim>\<open>SS\<close>, and leaves every other code point from 128 on as it is.
\<close>

definition example_unicode :: unicode_data where
  "example_unicode =
     \<lparr>nonascii_isspace = (\<lambda>c. c \<in> set [0x85, 0xA0, 0x1680, 0x2028, 0x2029, 0x202F, 0x205F, 0x3000]
                               \<or> (0x2000 \<le> c \<and> c \<le> 0x200A)),
      nonascii_upper = (\<lambda>c. if c = 0x17F then lit ''S'' else if c = 0xDF then lit ''SS'' else [c])\<rparr>"

text \<open>
  An environment for the examples: two files exist, relative paths are taken from
  \<^verbatim>\<open>/home/user\<close>, the extension split off is \<^verbatim>\<open>.pptx\<close>, every path opens as a
  document with one master and one layout, and saving succeeds.
\<close>

definition example_env :: environment where
  "example_env =
     \<lparr>path_exists = (\<lambda>p. p = lit ''deck.pptx'' \<or> p = lit ''notes.txt''),
      abspath = (\<lambda>p. if take 1 p = lit ''/'' then p else lit ''/home/user/'' @ p),
      splitext = (\<lambda>p. if endswith p (lit ''.pptx'') then (take (length p - 5) p, lit ''.pptx'')
                      else (p, [])),
      Presentation = (\<lambda>p. Inr \<lparr>slide_masters =
        [\<lparr>master_shapes = master_example,
          slide_layouts = [\<lparr>layout_shapes = [outer_group]\<rparr>]\<rparr>]\<rparr>),
      save = (\<lambda>prs p. None),
      unicode = example_unicode\<rparr>"

lemmas example_shapes = picture_def picture_no_action_def text_box_def group_shape_def

section \<open>Properties of the scanner\<close>

lemma lit_eq_Nil [simp]: "lit s = [] \<longleftrightarrow> s = []"
  by (simp add: lit_def)

lemma lit_eq_iff [simp]: "lit a = lit b \<longleftrightarrow> a = b"
  by (simp add: lit_def inj_map_eq_map inj_of_char)

lemma scan_group_fst:
  "fst (scan_group g cs w out) = (if list_ex linked_picture cs \<and> \<not> shape_in g w then w @ [g] else w)"
  by (induction cs) (auto simp: linked_picture_def split: option.splits)

lemma shape_in_append: "shape_in s (xs @ ys) = (shape_in s xs \<or> shape_in s ys)"
  by (auto simp: shape_in_def)

lemma shape_in_single: "shape_in s [t] = (ident s = ident t)"
  by (auto simp: shape_in_def)

lemma scan_fst:
  "distinct (map ident ss) \<Longrightarrow> \<forall>s\<in>set ss. \<not> shape_in s w \<Longrightarrow>
     fst (scan ss w out) = w @ filter marked ss"
proof (induction ss arbitrary: w out)
  case Nil
  then show ?case by simp
next
  case (Cons s rest)
  have fresh: "\<forall>t\<in>set rest. \<not> shape_in t (w @ [s])"
    using Cons.prems by (auto simp: shape_in_append shape_in_single image_iff)
  have fresh': "\<forall>t\<in>set rest. \<not> shape_in t w"
    using Cons.prems by simp
  have d: "distinct (map ident rest)" using Cons.prems by simp
  have nin: "\<not> shape_in s w" using Cons.prems by simp
  show ?case
  proof (cases "shape_type s")
    case PICTURE
    show ?thesis
    proof (cases "link_address s")
      case None
      with PICTURE show ?thesis
        using Cons.IH[OF d fresh'] by (simp add: marked_def linked_picture_def)
    next
      case (Some ad)
      with PICTURE show ?thesis
        using Cons.IH[OF d fresh] by (simp add: marked_def linked_picture_def)
    qed
  next
    case GROUP
    obtain w' out' where sg: "scan_group s (shapes s) w out = (w', out')"
      by (cases "scan_group s (shapes s) w out")
    have w': "w' = (if list_ex linked_picture (shapes s) then w @ [s] else w)"
      using scan_group_fst[of s "shapes s" w out] sg nin by simp
    show ?thesis
    proof (cases "list_ex linked_picture (shapes s)")
      case True
      with GROUP sg w' show ?thesis
        using Cons.IH[OF d fresh] by (simp add: marked_def linked_picture_def)
    next
      case False
      with GROUP sg w' show ?thesis
        using Cons.IH[OF d fresh'] by (simp add: marked_def linked_picture_def)
    qed
  next
    case OTHER
    then show ?thesis
      using Cons.IH[OF d fresh'] by (simp add: marked_def linked_picture_def)
  qed
qed

lemma worklist_filter: "distinct (map ident ss) \<Longrightarrow> worklist ss = filter marked ss"
  using scan_fst[of ss "[]" "[]"] by (simp add: worklist_def shape_in_def)

lemma remove_element_filter:
  "distinct (map ident tree) \<Longrightarrow> remove_element s tree = filter (\<lambda>t. ident t \<noteq> ident s) tree"
proof (induction tree)
  case Nil
  then show ?case by simp
next
  case (Cons t ts)
  then show ?case by (auto simp: image_iff intro!: filter_True[symmetric])
qed

lemma distinct_ident_filter: "distinct (map ident tree) \<Longrightarrow> distinct (map ident (filter P tree))"
  by (simp add: distinct_map_filter)

lemma remove_shapes_fst:
  "distinct (map ident tree) \<Longrightarrow>
     fst (remove_shapes ws tree out) = filter (\<lambda>t. \<not> shape_in t ws) tree"
proof (induction ws arbitrary: tree out)
  case Nil
  then show ?case by (simp add: shape_in_def)
next
  case (Cons s rest)
  have re: "remove_element s tree = filter (\<lambda>t. ident t \<noteq> ident s) tree"
    using Cons.prems by (rule remove_element_filter)
  have d: "distinct (map ident (filter (\<lambda>t. ident t \<noteq> ident s) tree))"
    using Cons.prems by (rule distinct_ident_filter)
  show ?case
  proof (cases "has_parent tree s")
    case True
    then show ?thesis
      using Cons.IH[OF d] re by (auto simp: shape_in_def intro: filter_cong)
  next
    case False
    then have "filter (\<lambda>t. ident t \<noteq> ident s) tree = tree"
      by (auto simp: has_parent_def shape_in_def image_iff intro!: filter_True)
    with False show ?thesis
      using Cons.IH[OF Cons.prems] 
      by (auto simp: shape_in_def has_parent_def image_iff intro!: filter_cong)
  qed
qed


lemma link_address_None_iff:
  "link_address s = None \<longleftrightarrow>
     click_action s = None \<or>
     (\<exists>a. click_action s = Some a \<and>
        (hyperlink a = None \<or>
         (\<exists>h. hyperlink a = Some h \<and> (address h = None \<or> address h = Some []))))"
  by (auto simp: link_address_def split: option.splits)

lemma shape_in_iff: "shape_in s xs \<longleftrightarrow> (\<exists>t\<in>set xs. ident t = ident s)"
  by (simp add: shape_in_def image_iff) metis

lemma shape_in_filter_marked:
  assumes "distinct (map ident ss)" "t \<in> set ss"
  shows "shape_in t (filter P ss) \<longleftrightarrow> P t"
proof -
  have inj: "inj_on ident (set ss)" using assms(1) by (simp add: distinct_map)
  show ?thesis
  proof
    assume "shape_in t (filter P ss)"
    then obtain u where u: "u \<in> set ss" "P u" "ident u = ident t"
      by (auto simp: shape_in_iff)
    with inj assms(2) have "u = t" by (auto dest: inj_onD)
    with u show "P t" by simp
  next
    assume "P t"
    with assms(2) show "shape_in t (filter P ss)" by (auto simp: shape_in_iff)
  qed
qed

lemma tree_after_filter:
  assumes "distinct (map ident ss)"
  shows "tree_after (remove_hyperlinked_pictures_from_shapes ss) = filter (\<lambda>t. \<not> marked t) ss"
proof -
  obtain w out where sc: "scan ss [] [] = (w, out)" by (cases "scan ss [] []")
  have w: "w = filter marked ss"
    using worklist_filter[OF assms] sc by (simp add: worklist_def)
  have keep: "filter (\<lambda>t. \<not> shape_in t w) ss = filter (\<lambda>t. \<not> marked t) ss"
    unfolding w using shape_in_filter_marked[OF assms] by (auto intro: filter_cong)
  show ?thesis
  proof (cases "w = []")
    case True
    then have "filter (\<lambda>t. \<not> marked t) ss = ss"
      using w by (auto simp: filter_empty_conv intro!: filter_True)
    with True sc show ?thesis
      by (simp add: remove_hyperlinked_pictures_from_shapes_def)
  next
    case False
    obtain tr out' where rs: "remove_shapes w ss (out @ [attempting_msg (length w)]) = (tr, out')"
      by (cases "remove_shapes w ss (out @ [attempting_msg (length w)])")
    have "tr = filter (\<lambda>t. \<not> shape_in t w) ss"
      using remove_shapes_fst[OF assms, of w "out @ [attempting_msg (length w)]"] rs by simp
    with False sc rs keep show ?thesis
      by (simp add: remove_hyperlinked_pictures_from_shapes_def)
  qed
qed

lemma ident_not_in:
  "ident t \<notin> ident ` set ss \<Longrightarrow> filter (\<lambda>u. ident u = ident t \<and> P u) ss = []"
  by (induction ss) auto

lemma count_ident_filter:
  "distinct (map ident ss) \<Longrightarrow> t \<in> set ss \<Longrightarrow>
     length (filter (\<lambda>u. ident u = ident t) (filter P ss)) = (if P t then 1 else 0)"
proof (induction ss)
  case Nil
  then show ?case by simp
next
  case (Cons s ss)
  show ?case
  proof (cases "t = s")
    case True
    then have "filter (\<lambda>u. ident u = ident t \<and> P u) ss = []"
      using Cons.prems(1) by (intro ident_not_in) simp
    with True show ?thesis by (simp add: conj_commute)
  next
    case False
    then have "t \<in> set ss" using Cons.prems(2) by simp
    moreover from this have "ident s \<noteq> ident t" using Cons.prems(1) by (auto simp: image_iff)
    ultimately show ?thesis using Cons by (cases "P t") auto
  qed
qed

text \<open>
  Claim C1. In a collection of distinct elements, a picture whose hyperlink address is a
  non-empty string occurs in the removal worklist exactly once, and is no longer in the
  collection after the removal pass. A picture for which the
  test of the click action, its hyperlink and its address fails (one of them absent, or
  the address empty) is not in the worklist and is still in the collection after the
  removal pass.
\<close>

theorem picture_worklist_once:
  assumes "distinct (map ident shapes_collection)"
    and "p \<in> set shapes_collection"
    and "shape_type p = PICTURE"
  shows "(link_address p \<noteq> None \<longrightarrow>
            length (filter (\<lambda>t. ident t = ident p) (worklist shapes_collection)) = 1 \<and>
            \<not> shape_in p (tree_after (remove_hyperlinked_pictures_from_shapes shapes_collection))) \<and>
         (link_address p = None \<longrightarrow>
            \<not> shape_in p (worklist shapes_collection) \<and>
            p \<in> set (tree_after (remove_hyperlinked_pictures_from_shapes shapes_collection)))"
proof -
  have m: "marked p \<longleftrightarrow> link_address p \<noteq> None"
    using assms(3) by (simp add: marked_def linked_picture_def)
  have w: "worklist shapes_collection = filter marked shapes_collection"
    using assms(1) by (rule worklist_filter)
  have c: "length (filter (\<lambda>t. ident t = ident p) (worklist shapes_collection)) = (if marked p then 1 else 0)"
    unfolding w using assms(1,2) by (rule count_ident_filter)
  have i: "shape_in p (worklist shapes_collection) \<longleftrightarrow> marked p"
    unfolding w using assms(1,2) by (rule shape_in_filter_marked)
  have t: "tree_after (remove_hyperlinked_pictures_from_shapes shapes_collection) =
             filter (\<lambda>t. \<not> marked t) shapes_collection"
    using assms(1) by (rule tree_after_filter)
  have r: "shape_in p (tree_after (remove_hyperlinked_pictures_from_shapes shapes_collection)) \<longleftrightarrow>
             \<not> marked p"
    unfolding t using assms(1,2) by (rule shape_in_filter_marked)
  show ?thesis using m c i t r assms(2) by simp
qed

theorem picture_worklist_once_witness:
  "length (filter (\<lambda>t. ident t = ident (picture 1 ''Logo'' (Some ''http://x'')))
      (worklist pictures_example)) = 1 \<and>
   \<not> shape_in (picture 1 ''Logo'' (Some ''http://x''))
      (tree_after (remove_hyperlinked_pictures_from_shapes pictures_example)) \<and>
   \<not> shape_in (picture 3 ''Empty'' (Some [])) (worklist pictures_example) \<and>
   picture 3 ''Empty'' (Some []) \<in>
     set (tree_after (remove_hyperlinked_pictures_from_shapes pictures_example)) \<and>
   picture 4 ''Absent'' None \<in>
     set (tree_after (remove_hyperlinked_pictures_from_shapes pictures_example)) \<and>
   picture_no_action 5 ''Plain'' \<in>
     set (tree_after (remove_hyperlinked_pictures_from_shapes pictures_example))"
  using picture_worklist_once [of pictures_example "picture 1 ''Logo'' (Some ''http://x'')"]
        picture_worklist_once [of pictures_example "picture 3 ''Empty'' (Some [])"]
        picture_worklist_once [of pictures_example "picture 4 ''Absent'' None"]
        picture_worklist_once [of pictures_example "picture_no_action 5 ''Plain''"]
  by (simp add: pictures_example_def example_shapes link_address_def)

lemma scan_subset:
  "set (fst (scan ss w out)) \<subseteq> set w \<union> set (filter marked ss)"
proof (induction ss arbitrary: w out)
  case Nil
  then show ?case by simp
next
  case (Cons s rest)
  show ?case
  proof (cases "shape_type s")
    case PICTURE
    then show ?thesis
      using Cons.IH[of "w @ [s]"] Cons.IH[of w]
      by (auto simp: marked_def linked_picture_def split: option.splits)
  next
    case GROUP
    obtain w' out' where sg: "scan_group s (shapes s) w out = (w', out')"
      by (cases "scan_group s (shapes s) w out")
    have w': "w' = (if list_ex linked_picture (shapes s) \<and> \<not> shape_in s w then w @ [s] else w)"
      using scan_group_fst[of s "shapes s" w out] sg by simp
    have "set w' \<subseteq> set w \<union> set (filter marked [s])"
      using w' GROUP by (auto simp: marked_def)
    with GROUP sg show ?thesis
      using Cons.IH[of w' out'] by auto
  next
    case OTHER
    then show ?thesis
      using Cons.IH[of w out] by auto
  qed
qed

lemma worklist_subset: "set (worklist ss) \<subseteq> set (filter marked ss)"
  using scan_subset[of ss "[]" "[]"] by (simp add: worklist_def)

lemma scan_group_first_match:
  assumes "\<not> list_ex linked_picture pre" "shape_type c = PICTURE" "link_address c = Some ad"
  shows "scan_group g (pre @ c # rest) w out =
           (if \<not> shape_in g w then w @ [g] else w, out @ [found_in_group_msg g ad])"
  using assms(1)
proof (induction pre)
  case Nil
  then show ?case using assms(2,3) by simp
next
  case (Cons p pre)
  then show ?case by (auto simp: linked_picture_def split: option.splits)
qed

text \<open>
  Claim C2. In a collection of distinct elements, a group with a linked picture among
  its immediate children occurs in the removal worklist exactly once and is no longer in
  the collection after the removal pass; the worklist holds top-level shapes of the
  collection only, never a child of a group. The loop over
  the children stops at the first linked picture \<open>c\<close>: whatever children \<open>rest\<close>
  follow it, the loop appends the group unless it is already listed, and prints the one
  message for \<open>c\<close>.
\<close>

theorem group_worklist_once:
  assumes "distinct (map ident shapes_collection)"
    and "g \<in> set shapes_collection"
    and "shape_type g = GROUP"
    and "shapes g = pre @ c # rest"
    and "\<not> list_ex linked_picture pre"
    and "shape_type c = PICTURE"
    and "link_address c = Some ad"
  shows "length (filter (\<lambda>t. ident t = ident g) (worklist shapes_collection)) = 1 \<and>
         set (worklist shapes_collection) \<subseteq> set shapes_collection \<and>
         \<not> shape_in g (tree_after (remove_hyperlinked_pictures_from_shapes shapes_collection)) \<and>
         scan_group g (shapes g) w out =
           (if \<not> shape_in g w then w @ [g] else w, out @ [found_in_group_msg g ad])"
proof -
  have "linked_picture c" using assms(6,7) by (simp add: linked_picture_def)
  then have m: "marked g" using assms(3,4) by (simp add: marked_def)
  have w: "worklist shapes_collection = filter marked shapes_collection"
    using assms(1) by (rule worklist_filter)
  have c: "length (filter (\<lambda>t. ident t = ident g) (worklist shapes_collection)) = (if marked g then 1 else 0)"
    unfolding w using assms(1,2) by (rule count_ident_filter)
  have s: "set (worklist shapes_collection) \<subseteq> set shapes_collection"
    unfolding w by auto
  have t: "tree_after (remove_hyperlinked_pictures_from_shapes shapes_collection) =
             filter (\<lambda>t. \<not> marked t) shapes_collection"
    using assms(1) by (rule tree_after_filter)
  have r: "shape_in g (tree_after (remove_hyperlinked_pictures_from_shapes shapes_collection)) \<longleftrightarrow>
             \<not> marked g"
    unfolding t using assms(1,2) by (rule shape_in_filter_marked)
  have i: "scan_group g (shapes g) w out =
           (if \<not> shape_in g w then w @ [g] else w, out @ [found_in_group_msg g ad])"
    unfolding assms(4) using assms(5,6,7) by (rule scan_group_first_match)
  show ?thesis using m c s r i by simp
qed

theorem group_worklist_once_witness:
  "length (filter (\<lambda>t. ident t = ident badge_group) (worklist [badge_group, text_box 6 ''Note''])) = 1 \<and>
   set (worklist [badge_group, text_box 6 ''Note'']) \<subseteq> set [badge_group, text_box 6 ''Note''] \<and>
   \<not> shape_in badge_group
       (tree_after (remove_hyperlinked_pictures_from_shapes [badge_group, text_box 6 ''Note''])) \<and>
   scan_group badge_group (shapes badge_group) [] [] =
     ([badge_group], [found_in_group_msg badge_group (lit ''http://y'')])"
  using group_worklist_once
          [of "[badge_group, text_box 6 ''Note'']" badge_group "[text_box 2 ''Caption'']"
              "picture 3 ''First'' (Some ''http://y'')"
              "[picture 4 ''Second'' (Some ''http://z''), text_box 5 ''Footer'']"
              "lit ''http://y''" "[]" "[]"]
  by (simp add: badge_group_def example_shapes link_address_def linked_picture_def shape_in_def)

text \<open>
  Claim C3. In a collection of distinct elements, a group with no linked picture among
  its immediate children is not in the removal worklist and is still in the collection
  after the removal pass, whatever its children contain: the scanner reads the type and
  the click action of the immediate children only.
\<close>

theorem group_untouched:
  assumes "distinct (map ident shapes_collection)"
    and "g \<in> set shapes_collection"
    and "shape_type g = GROUP"
    and "\<not> list_ex linked_picture (shapes g)"
  shows "\<not> shape_in g (worklist shapes_collection) \<and>
         g \<in> set (tree_after (remove_hyperlinked_pictures_from_shapes shapes_collection))"
proof -
  have m: "\<not> marked g"
    using assms(3,4) by (simp add: marked_def linked_picture_def)
  have w: "worklist shapes_collection = filter marked shapes_collection"
    using assms(1) by (rule worklist_filter)
  have i: "shape_in g (worklist shapes_collection) \<longleftrightarrow> marked g"
    unfolding w using assms(1,2) by (rule shape_in_filter_marked)
  have t: "tree_after (remove_hyperlinked_pictures_from_shapes shapes_collection) =
             filter (\<lambda>t. \<not> marked t) shapes_collection"
    using assms(1) by (rule tree_after_filter)
  show ?thesis using m i t assms(2) by simp
qed


theorem group_untouched_witness:
  "linked_picture (picture 3 ''Deep'' (Some ''http://deep'')) \<and>
   \<not> shape_in outer_group (worklist [outer_group, picture 5 ''Logo'' (Some ''http://x'')]) \<and>
   outer_group \<in> set (tree_after (remove_hyperlinked_pictures_from_shapes
                   [outer_group, picture 5 ''Logo'' (Some ''http://x'')]))"
  using group_untouched [of "[outer_group, picture 5 ''Logo'' (Some ''http://x'')]" outer_group]
  by (simp add: outer_group_def example_shapes link_address_def linked_picture_def)

lemma scan_group_no_match:
  "\<not> list_ex linked_picture cs \<Longrightarrow> scan_group g cs w out = (w, out)"
  by (induction cs) (auto simp: linked_picture_def split: option.splits)

lemma scan_no_marked:
  "\<forall>s\<in>set ss. \<not> marked s \<Longrightarrow> scan ss w out = (w, out)"
proof (induction ss)
  case Nil
  then show ?case by simp
next
  case (Cons s rest)
  then have ns: "\<not> marked s" and IH: "scan rest w out = (w, out)" by simp_all
  show ?case
  proof (cases "shape_type s")
    case PICTURE
    with ns IH show ?thesis
      by (auto simp: marked_def linked_picture_def split: option.splits)
  next
    case GROUP
    with ns have "scan_group s (shapes s) w out = (w, out)"
      by (intro scan_group_no_match) (simp add: marked_def)
    with GROUP IH show ?thesis by simp
  next
    case OTHER
    with IH show ?thesis by simp
  qed
qed

lemma pass_no_marked:
  assumes "\<forall>s\<in>set ss. \<not> marked s"
  shows "remove_hyperlinked_pictures_from_shapes ss =
           \<lparr>tree_after = ss, stdout = [none_found_msg], returned = PyNone\<rparr>"
  using scan_no_marked[OF assms, of "[]" "[]"]
  by (simp add: remove_hyperlinked_pictures_from_shapes_def)

text \<open>
  Claim C6. For a collection of distinct elements, the first pass detaches every shape
  of its worklist (the collection shrinks by the length of the worklist), and a second
  pass over the collection it leaves finds an empty worklist, prints that nothing was
  found and leaves the collection as it is.
\<close>

theorem second_pass_removes_nothing:
  assumes "distinct (map ident shapes_collection)"
  shows "length (tree_after (remove_hyperlinked_pictures_from_shapes shapes_collection)) +
           length (worklist shapes_collection) = length shapes_collection \<and>
         worklist (tree_after (remove_hyperlinked_pictures_from_shapes shapes_collection)) = [] \<and>
         remove_hyperlinked_pictures_from_shapes
             (tree_after (remove_hyperlinked_pictures_from_shapes shapes_collection)) =
           \<lparr>tree_after = tree_after (remove_hyperlinked_pictures_from_shapes shapes_collection),
            stdout = [none_found_msg], returned = PyNone\<rparr>"
proof -
  let ?t = "tree_after (remove_hyperlinked_pictures_from_shapes shapes_collection)"
  have t: "?t = filter (\<lambda>t. \<not> marked t) shapes_collection"
    using assms by (rule tree_after_filter)
  have w: "worklist shapes_collection = filter marked shapes_collection"
    using assms by (rule worklist_filter)
  have len: "length ?t + length (worklist shapes_collection) = length shapes_collection"
    unfolding t w using sum_length_filter_compl[of marked shapes_collection] by simp
  have none: "\<forall>s\<in>set ?t. \<not> marked s" unfolding t by simp
  have w2: "worklist ?t = []"
    using scan_no_marked[OF none, of "[]" "[]"] by (simp add: worklist_def)
  show ?thesis using len w2 pass_no_marked[OF none] by simp
qed

theorem second_pass_removes_nothing_witness:
  "length (tree_after (remove_hyperlinked_pictures_from_shapes master_example)) +
     length (worklist master_example) = length master_example \<and>
   worklist (tree_after (remove_hyperlinked_pictures_from_shapes master_example)) = [] \<and>
   remove_hyperlinked_pictures_from_shapes
       (tree_after (remove_hyperlinked_pictures_from_shapes master_example)) =
     \<lparr>tree_after = tree_after (remove_hyperlinked_pictures_from_shapes master_example),
      stdout = [none_found_msg], returned = PyNone\<rparr>"
  using second_pass_removes_nothing [of master_example]
  by (simp add: master_example_def badge_group_def example_shapes)

text \<open>
  Claim C7. Every shape of the worklist is a picture or a group. For a collection with
  no picture and no group, the empty collection included, the worklist is empty and the
  pass leaves the collection unchanged.
\<close>

theorem other_kinds_ignored:
  "(\<forall>s\<in>set (worklist shapes_collection). shape_type s = PICTURE \<or> shape_type s = GROUP) \<and>
   ((\<forall>s\<in>set shapes_collection. shape_type s \<noteq> PICTURE \<and> shape_type s \<noteq> GROUP) \<longrightarrow>
      worklist shapes_collection = [] \<and>
      remove_hyperlinked_pictures_from_shapes shapes_collection =
        \<lparr>tree_after = shapes_collection, stdout = [none_found_msg], returned = PyNone\<rparr>)"
proof (intro conjI impI)
  show "\<forall>s\<in>set (worklist shapes_collection). shape_type s = PICTURE \<or> shape_type s = GROUP"
    using worklist_subset[of shapes_collection] by (auto simp: marked_def linked_picture_def)
next
  assume a: "\<forall>s\<in>set shapes_collection. shape_type s \<noteq> PICTURE \<and> shape_type s \<noteq> GROUP"
  then have none: "\<forall>s\<in>set shapes_collection. \<not> marked s"
    by (simp add: marked_def linked_picture_def)
  show "worklist shapes_collection = []"
    using scan_no_marked[OF none, of "[]" "[]"] by (simp add: worklist_def)
  show "remove_hyperlinked_pictures_from_shapes shapes_collection =
        \<lparr>tree_after = shapes_collection, stdout = [none_found_msg], returned = PyNone\<rparr>"
    using none by (rule pass_no_marked)
qed

theorem other_kinds_ignored_witness:
  "remove_hyperlinked_pictures_from_shapes [] =
     \<lparr>tree_after = [], stdout = [none_found_msg], returned = PyNone\<rparr> \<and>
   remove_hyperlinked_pictures_from_shapes [text_box 1 ''Title'', text_box 2 ''Body''] =
     \<lparr>tree_after = [text_box 1 ''Title'', text_box 2 ''Body''],
      stdout = [none_found_msg], returned = PyNone\<rparr> \<and>
   list_all (\<lambda>s. shape_type s = PICTURE \<or> shape_type s = GROUP) (worklist pictures_example)"
  using other_kinds_ignored [of "[]"]
        other_kinds_ignored [of "[text_box 1 ''Title'', text_box 2 ''Body'']"]
        other_kinds_ignored [of pictures_example]
  by (simp add: example_shapes list_all_iff)

lemma found_msgs_differ:
  "found_picture_msg s ad \<noteq> removed_msg" "found_picture_msg s ad \<noteq> could_not_remove_msg"
  "found_in_group_msg g ad \<noteq> removed_msg" "found_in_group_msg g ad \<noteq> could_not_remove_msg"
  "attempting_msg n \<noteq> removed_msg" "attempting_msg n \<noteq> could_not_remove_msg"
  "none_found_msg \<noteq> removed_msg" "none_found_msg \<noteq> could_not_remove_msg"
  "removed_msg \<noteq> could_not_remove_msg"
  by (simp_all add: found_picture_msg_def found_in_group_msg_def attempting_msg_def
        none_found_msg_def removed_msg_def could_not_remove_msg_def lit_def)

lemma scan_group_count:
  "m = removed_msg \<or> m = could_not_remove_msg \<Longrightarrow>
     count_list (snd (scan_group g cs w out)) m = count_list out m"
  by (induction cs) (auto simp: found_msgs_differ split: option.splits)

lemma scan_count:
  "m = removed_msg \<or> m = could_not_remove_msg \<Longrightarrow>
     count_list (snd (scan ss w out)) m = count_list out m"
proof (induction ss arbitrary: w out)
  case Nil
  then show ?case by simp
next
  case (Cons s rest)
  show ?case
  proof (cases "shape_type s")
    case PICTURE
    then show ?thesis
      using Cons.IH[OF Cons.prems] Cons.prems
      by (auto simp: found_msgs_differ split: option.splits)
  next
    case GROUP
    obtain w' out' where sg: "scan_group s (shapes s) w out = (w', out')"
      by (cases "scan_group s (shapes s) w out")
    have "count_list out' m = count_list out m"
      using scan_group_count[OF Cons.prems, of s "shapes s" w out] sg by simp
    with GROUP sg show ?thesis
      using Cons.IH[OF Cons.prems, of w' out'] by simp
  next
    case OTHER
    then show ?thesis using Cons.IH[OF Cons.prems] by simp
  qed
qed


lemma remove_element_length:
  "has_parent tree s \<Longrightarrow> Suc (length (remove_element s tree)) = length tree"
  by (induction tree) (auto simp: has_parent_def shape_in_def)

lemma remove_shapes_count:
  "count_list (snd (remove_shapes ws tree out)) removed_msg +
       length (fst (remove_shapes ws tree out)) = count_list out removed_msg + length tree \<and>
   count_list (snd (remove_shapes ws tree out)) removed_msg +
       count_list (snd (remove_shapes ws tree out)) could_not_remove_msg =
     count_list out removed_msg + count_list out could_not_remove_msg + length ws"
proof (induction ws arbitrary: tree out)
  case Nil
  then show ?case by simp
next
  case (Cons s rest)
  show ?case
  proof (cases "has_parent tree s")
    case True
    then show ?thesis
      using Cons.IH[of "remove_element s tree" "out @ [removed_msg]"]
            remove_element_length[OF True]
      by (simp add: found_msgs_differ)
  next
    case False
    then show ?thesis
      using Cons.IH[of tree "out @ [could_not_remove_msg]"] found_msgs_differ(9)
      by simp
  qed
qed

text \<open>
  Claim C4, as amended. The call returns no value: its result is \<^verbatim>\<open>None\<close> for every
  collection. The counts are reported on the console only: the number of lines
  \<^verbatim>\<open>Successfully removed shape.\<close> is the number of shapes the collection lost, and
  together with the lines \<^verbatim>\<open>Could not remove shape\<close> there is one line for every
  shape of the worklist.
\<close>

theorem counts_are_printed_only:
  "returned (remove_hyperlinked_pictures_from_shapes shapes_collection) = PyNone \<and>
   count_list (stdout (remove_hyperlinked_pictures_from_shapes shapes_collection)) removed_msg +
       length (tree_after (remove_hyperlinked_pictures_from_shapes shapes_collection)) =
     length shapes_collection \<and>
   count_list (stdout (remove_hyperlinked_pictures_from_shapes shapes_collection)) removed_msg +
       count_list (stdout (remove_hyperlinked_pictures_from_shapes shapes_collection))
         could_not_remove_msg =
     length (worklist shapes_collection)"
proof -
  obtain w out where sc: "scan shapes_collection [] [] = (w, out)"
    by (cases "scan shapes_collection [] []")
  have o1: "count_list out removed_msg = 0"
    using scan_count[of removed_msg shapes_collection "[]" "[]"] sc by simp
  have o2: "count_list out could_not_remove_msg = 0"
    using scan_count[of could_not_remove_msg shapes_collection "[]" "[]"] sc by simp
  have wl: "worklist shapes_collection = w" using sc by (simp add: worklist_def)
  show ?thesis
  proof (cases "w = []")
    case True
    with sc o1 o2 wl show ?thesis
      by (simp add: remove_hyperlinked_pictures_from_shapes_def found_msgs_differ)
  next
    case False
    obtain tr out' where rs:
      "remove_shapes w shapes_collection (out @ [attempting_msg (length w)]) = (tr, out')"
      by (cases "remove_shapes w shapes_collection (out @ [attempting_msg (length w)])")
    have "count_list out' removed_msg + length tr = length shapes_collection \<and>
          count_list out' removed_msg + count_list out' could_not_remove_msg = length w"
      using remove_shapes_count[of w shapes_collection "out @ [attempting_msg (length w)]"]
            rs o1 o2
      by (simp add: found_msgs_differ)
    with False sc rs wl show ?thesis
      by (simp add: remove_hyperlinked_pictures_from_shapes_def)
  qed
qed

text \<open>
  Claim C4 as stated fails: for a collection of a linked picture and a text box the pass
  removes one shape with no failure, and the value returned is \<^verbatim>\<open>None\<close>, neither the
  number 1 nor the pair of 1 and 0.
\<close>

theorem returns_count_counterexample:
  "tree_after (remove_hyperlinked_pictures_from_shapes
      [picture 1 ''Logo'' (Some ''http://x''), text_box 2 ''Title'']) = [text_box 2 ''Title''] \<and>
   returned (remove_hyperlinked_pictures_from_shapes
      [picture 1 ''Logo'' (Some ''http://x''), text_box 2 ''Title'']) = PyNone \<and>
   returned (remove_hyperlinked_pictures_from_shapes
      [picture 1 ''Logo'' (Some ''http://x''), text_box 2 ''Title'']) \<noteq> PyInt 1 \<and>
   returned (remove_hyperlinked_pictures_from_shapes
      [picture 1 ''Logo'' (Some ''http://x''), text_box 2 ''Title'']) \<noteq> PyTuple [PyInt 1, PyInt 0]"
  by (simp add: remove_hyperlinked_pictures_from_shapes_def example_shapes link_address_def
        has_parent_def shape_in_def)


lemma shape_in_Cons: "shape_in x (s # ys) \<longleftrightarrow> ident x = ident s \<or> shape_in x ys"
  by (auto simp: shape_in_def)

lemma shape_in_Nil: "\<not> shape_in x []"
  by (simp add: shape_in_def)

lemma shape_in_filter_ident:
  "shape_in x (filter (\<lambda>t. ident t \<noteq> ident s) tree) \<longleftrightarrow> shape_in x tree \<and> ident x \<noteq> ident s"
  by (auto simp: shape_in_iff)

lemma shape_in_same_ident: "ident x = ident s \<Longrightarrow> shape_in x tree = shape_in s tree"
  by (simp add: shape_in_def)

text \<open>
  Claim C5. For every worklist and every container of distinct elements, the detaching
  loop returns normally, with one console line for each shape of the worklist. The line
  for a shape is the failure line exactly when the shape is not among the container's
  children or was detached earlier in the same batch; every other shape is detached,
  whatever failed before it, so that the container ends up without any shape of the
  worklist.
\<close>

theorem detach_failure_does_not_abort:
  assumes "distinct (map ident tree)"
  shows "\<exists>msgs. remove_shapes ws tree out = (filter (\<lambda>t. \<not> shape_in t ws) tree, out @ msgs) \<and>
           length msgs = length ws \<and>
           (\<forall>i<length ws. msgs ! i =
              (if shape_in (ws ! i) tree \<and> \<not> shape_in (ws ! i) (take i ws)
               then removed_msg else could_not_remove_msg))"
  using assms
proof (induction ws arbitrary: tree out)
  case Nil
  then show ?case by (simp add: shape_in_Nil)
next
  case (Cons s rest)
  show ?case
  proof (cases "has_parent tree s")
    case True
    let ?tree1 = "filter (\<lambda>t. ident t \<noteq> ident s) tree"
    have re: "remove_element s tree = ?tree1"
      using Cons.prems by (rule remove_element_filter)
    have d: "distinct (map ident ?tree1)"
      using Cons.prems by (rule distinct_ident_filter)
    from Cons.IH[OF d, of "out @ [removed_msg]"]
    obtain msgs where
      r: "remove_shapes rest ?tree1 (out @ [removed_msg]) =
            (filter (\<lambda>t. \<not> shape_in t rest) ?tree1, (out @ [removed_msg]) @ msgs)"
      and l: "length msgs = length rest"
      and m: "\<forall>i<length rest. msgs ! i =
              (if shape_in (rest ! i) ?tree1 \<and> \<not> shape_in (rest ! i) (take i rest)
               then removed_msg else could_not_remove_msg)"
      by blast
    have f: "filter (\<lambda>t. \<not> shape_in t rest) ?tree1 = filter (\<lambda>t. \<not> shape_in t (s # rest)) tree"
      by (auto simp: shape_in_Cons intro: filter_cong)
    have run: "remove_shapes (s # rest) tree out =
            (filter (\<lambda>t. \<not> shape_in t (s # rest)) tree, out @ (removed_msg # msgs))"
      using True re r f by simp
    have each: "(removed_msg # msgs) ! i =
              (if shape_in ((s # rest) ! i) tree \<and> \<not> shape_in ((s # rest) ! i) (take i (s # rest))
               then removed_msg else could_not_remove_msg)" if "i < length (s # rest)" for i
    proof (cases i)
      case 0
      then show ?thesis using True by (simp add: has_parent_def shape_in_Nil)
    next
      case (Suc j)
      then have "j < length rest" using that by simp
      with m have "msgs ! j =
              (if shape_in (rest ! j) ?tree1 \<and> \<not> shape_in (rest ! j) (take j rest)
               then removed_msg else could_not_remove_msg)" by simp
      then show ?thesis using Suc
        by (auto simp: shape_in_filter_ident shape_in_Cons)
    qed
    show ?thesis
      using run l each by (intro exI[of _ "removed_msg # msgs"]) simp
  next
    case False
    from Cons.IH[OF Cons.prems, of "out @ [could_not_remove_msg]"]
    obtain msgs where
      r: "remove_shapes rest tree (out @ [could_not_remove_msg]) =
            (filter (\<lambda>t. \<not> shape_in t rest) tree, (out @ [could_not_remove_msg]) @ msgs)"
      and l: "length msgs = length rest"
      and m: "\<forall>i<length rest. msgs ! i =
              (if shape_in (rest ! i) tree \<and> \<not> shape_in (rest ! i) (take i rest)
               then removed_msg else could_not_remove_msg)"
      by blast
    have ns: "\<not> shape_in s tree" using False by (simp add: has_parent_def)
    have f: "filter (\<lambda>t. \<not> shape_in t rest) tree = filter (\<lambda>t. \<not> shape_in t (s # rest)) tree"
      using ns by (auto simp: shape_in_Cons shape_in_iff intro!: filter_cong)
    have run: "remove_shapes (s # rest) tree out =
            (filter (\<lambda>t. \<not> shape_in t (s # rest)) tree, out @ (could_not_remove_msg # msgs))"
      using False r f by simp
    have each: "(could_not_remove_msg # msgs) ! i =
              (if shape_in ((s # rest) ! i) tree \<and> \<not> shape_in ((s # rest) ! i) (take i (s # rest))
               then removed_msg else could_not_remove_msg)" if "i < length (s # rest)" for i
    proof (cases i)
      case 0
      then show ?thesis using ns by simp
    next
      case (Suc j)
      then have "j < length rest" using that by simp
      with m have "msgs ! j =
              (if shape_in (rest ! j) tree \<and> \<not> shape_in (rest ! j) (take j rest)
               then removed_msg else could_not_remove_msg)" by simp
      then show ?thesis using Suc ns
        by (auto simp: shape_in_Cons dest: shape_in_same_ident)
    qed
    show ?thesis
      using run l each by (intro exI[of _ "could_not_remove_msg # msgs"]) simp
  qed
qed

text \<open>
  A worklist that names a picture twice and holds a shape that is not in the container:
  the second and third detachments fail, the group after them is still removed.
\<close>
theorem detach_failure_does_not_abort_witness:
  "remove_shapes
      [picture 6 ''Logo'' (Some ''http://x''), picture 9 ''Gone'' (Some ''http://w''),
       picture 6 ''Logo'' (Some ''http://x''), badge_group]
      master_example []
    = ([text_box 7 ''Title'', picture 8 ''Empty'' (Some [])],
       [removed_msg, could_not_remove_msg, could_not_remove_msg, removed_msg])"
proof -
  let ?ws = "[picture 6 ''Logo'' (Some ''http://x''), picture 9 ''Gone'' (Some ''http://w''),
       picture 6 ''Logo'' (Some ''http://x''), badge_group]"
  have d: "distinct (map ident master_example)"
    by (simp add: master_example_def badge_group_def example_shapes)
  from detach_failure_does_not_abort [OF d, of ?ws "[]"]
  obtain msgs where
    r: "remove_shapes ?ws master_example [] =
          (filter (\<lambda>t. \<not> shape_in t ?ws) master_example, [] @ msgs)"
    and l: "length msgs = length ?ws"
    and m: "\<forall>i<length ?ws. msgs ! i =
              (if shape_in (?ws ! i) master_example \<and> \<not> shape_in (?ws ! i) (take i ?ws)
               then removed_msg else could_not_remove_msg)"
    by blast
  have m0: "msgs ! 0 = removed_msg" using m
    by (simp add: master_example_def badge_group_def example_shapes shape_in_def)
  have m1: "msgs ! 1 = could_not_remove_msg" using m
    by (simp add: master_example_def badge_group_def example_shapes shape_in_def)
  have m2: "msgs ! 2 = could_not_remove_msg" using m
    by (simp add: master_example_def badge_group_def example_shapes shape_in_def)
  have m3: "msgs ! 3 = removed_msg" using m
    by (simp add: master_example_def badge_group_def example_shapes shape_in_def)
  have "msgs = [msgs ! 0, msgs ! 1, msgs ! 2, msgs ! 3]"
    using l by (auto simp: list_eq_iff_nth_eq less_Suc_eq numeral_eq_Suc)
  with m0 m1 m2 m3 have "msgs = [removed_msg, could_not_remove_msg, could_not_remove_msg, removed_msg]"
    by simp
  with r show ?thesis
    by (simp add: master_example_def badge_group_def example_shapes shape_in_def)
qed

section \<open>Properties of the prompt and of the run\<close>

lemma strip_whitespace_around:
  assumes "\<forall>c\<in>set ws1. isspace ud c" "\<forall>c\<in>set ws2. isspace ud c"
  shows "strip ud (ws1 @ line @ ws2) = strip ud line"
proof -
  have l: "dropWhile (isspace ud) (ws1 @ line @ ws2) = dropWhile (isspace ud) (line @ ws2)"
    using assms(1) by simp
  show ?thesis
  proof (cases "\<forall>c\<in>set line. isspace ud c")
    case True
    have a: "dropWhile (isspace ud) (line @ ws2) = []"
      using True assms(2) by (auto simp: dropWhile_eq_Nil_conv)
    have b: "dropWhile (isspace ud) line = []"
      using True by (auto simp: dropWhile_eq_Nil_conv)
    show ?thesis unfolding strip_def l a b by simp
  next
    case False
    then obtain x where x: "x \<in> set line" "\<not> isspace ud x" by blast
    then have "dropWhile (isspace ud) (line @ ws2) = dropWhile (isspace ud) line @ ws2"
      by (simp add: dropWhile_append1)
    then have "rev (dropWhile (isspace ud) (ws1 @ line @ ws2)) = rev ws2 @ rev (dropWhile (isspace ud) line)"
      using l by simp
    moreover have "dropWhile (isspace ud) (rev ws2 @ rev (dropWhile (isspace ud) line)) =
        dropWhile (isspace ud) (rev (dropWhile (isspace ud) line))"
      using assms(2) by (intro dropWhile_append2) auto
    ultimately have "dropWhile (isspace ud) (rev (dropWhile (isspace ud) (ws1 @ line @ ws2))) =
        dropWhile (isspace ud) (rev (dropWhile (isspace ud) line))"
      by simp
    then show ?thesis by (simp add: strip_def)
  qed
qed

lemma lit_letters:
  "lit ''O'' = [79]" "lit ''o'' = [111]" "lit ''S'' = [83]" "lit ''s'' = [115]"
  by (simp_all add: lit_def)

lemma upper_ascii:
  "\<forall>c\<in>set s. c < 128 \<Longrightarrow>
     upper ud s = map (\<lambda>c. if 97 \<le> c \<and> c \<le> 122 then c - 32 else c) s"
  by (induction s) (simp_all add: upper_def upper_char_def)

lemma upper_ascii_O:
  assumes "\<forall>c\<in>set s. c < 128"
  shows "upper ud s = lit ''O'' \<longleftrightarrow> s = lit ''O'' \<or> s = lit ''o''"
proof (cases s)
  case Nil
  then show ?thesis by (simp add: upper_def lit_letters)
next
  case (Cons c cs)
  then show ?thesis
    unfolding upper_ascii[OF assms] lit_letters by (cases cs) auto
qed

lemma upper_ascii_S:
  assumes "\<forall>c\<in>set s. c < 128"
  shows "upper ud s = lit ''S'' \<longleftrightarrow> s = lit ''S'' \<or> s = lit ''s''"
proof (cases s)
  case Nil
  then show ?thesis by (simp add: upper_def lit_letters)
next
  case (Cons c cs)
  then show ?thesis
    unfolding upper_ascii[OF assms] lit_letters by (cases cs) auto
qed

lemma upper_letters:
  "upper ud (lit ''O'') = lit ''O''" "upper ud (lit ''o'') = lit ''O''"
  "upper ud (lit ''S'') = lit ''S''" "upper ud (lit ''s'') = lit ''S''"
  by (simp_all add: upper_def upper_char_def lit_letters)

lemma strip_S: "strip ud (lit ''S'') = lit ''S''"
  by (simp add: strip_def isspace_def lit_letters)

text \<open>The definitions a run on the examples unfolds.\<close>

lemmas run_defs = example_env_def example_unicode_def strip_def isspace_def upper_def upper_char_def
  new_output_path_def default_new_path_def endswith_def lower_def lower_char_def lit_def
  process_presentation_def main_def remove_hyperlinked_pictures_from_shapes_def
  master_example_def badge_group_def outer_group_def example_shapes link_address_def
  has_parent_def shape_in_def Let_def

lemma save_prompt_result:
  "save_prompt env input_path lines out = (Inr (choice, output_path), out') \<Longrightarrow>
     (choice = lit ''O'' \<and> output_path = input_path) \<or>
     (choice = lit ''S'' \<and> abspath env output_path \<noteq> abspath env input_path)"
proof (induction env input_path lines out rule: save_prompt.induct)
  case (1 env input_path out)
  then show ?case by simp
next
  case (2 env input_path line rest out)
  show ?case
  proof (cases "upper (unicode env) (strip (unicode env) line) = lit ''O''")
    case True
    with "2.prems" show ?thesis by (simp add: Let_def)
  next
    case notO: False
    show ?thesis
    proof (cases "upper (unicode env) (strip (unicode env) line) = lit ''S''")
      case False
      with notO "2.prems" "2.IH"(2) show ?thesis by (simp add: Let_def)
    next
      case True
      show ?thesis
      proof (cases rest)
        case Nil
        with True notO "2.prems" show ?thesis by (simp add: Let_def)
      next
        case (Cons line2 rest2)
        show ?thesis
        proof (cases "abspath env (new_output_path env input_path line2) = abspath env input_path")
          case same: True
          with True notO Cons "2.prems" "2.IH"(1) show ?thesis by (simp add: Let_def)
        next
          case False
          with True notO Cons "2.prems" show ?thesis by (auto simp: Let_def)
        qed
      qed
    qed
  qed
qed

lemma save_call_result:
  assumes "save_call (process_presentation env input_path lines) = Some output_path"
  shows "output_path = input_path \<or> abspath env output_path \<noteq> abspath env input_path"
proof (cases "Presentation env input_path")
  case (Inl e)
  with assms show ?thesis by (simp add: process_presentation_def)
next
  case (Inr prs)
  obtain masters' out where pm:
    "(if slide_masters prs \<noteq> [] then
        process_masters 0 (slide_masters prs)
          [lit ''Processing presentation: '' @ input_path,
           masters_header_msg (length (slide_masters prs))]
      else (slide_masters prs,
            [lit ''Processing presentation: '' @ input_path, no_masters_msg])) = (masters', out)"
    by (cases "(if slide_masters prs \<noteq> [] then
        process_masters 0 (slide_masters prs)
          [lit ''Processing presentation: '' @ input_path,
           masters_header_msg (length (slide_masters prs))]
      else (slide_masters prs,
            [lit ''Processing presentation: '' @ input_path, no_masters_msg]))")
  obtain res out' where sp: "save_prompt env input_path lines out = (res, out')"
    by (cases "save_prompt env input_path lines out")
  show ?thesis
  proof (cases res)
    case (Inl err)
    with assms Inr pm sp show ?thesis by (simp add: process_presentation_def)
  next
    case r: (Inr co)
    obtain choice q where co: "co = (choice, q)" by (cases co)
    have "q = output_path"
      using assms Inr pm sp r co
      by (simp add: process_presentation_def split: option.splits)
    moreover have "(choice = lit ''O'' \<and> q = input_path) \<or>
       (choice = lit ''S'' \<and> abspath env q \<noteq> abspath env input_path)"
      using sp r co by (intro save_prompt_result[of env input_path lines out choice q out']) simp
    ultimately show ?thesis by auto
  qed
qed

text \<open>
  Claim C8. When the choice read is the save-as-new one and the output path resolved from
  the next line has the same absolute path as the input path, the loop prints the
  rejection and asks again, going on with the lines that follow. When the loop ends with
  a choice and an output path, either the choice is to overwrite and the output path is
  the input path, or the choice is to save as new and the absolute paths differ; so the
  path handed to the save call is the input path itself only by the overwrite choice.
\<close>

theorem same_path_rejected:
  "(upper (unicode env) (strip (unicode env) line) = lit ''S'' \<and>
      abspath env (new_output_path env input_path line2) = abspath env input_path \<longrightarrow>
      save_prompt env input_path (line # line2 # rest) out =
        save_prompt env input_path rest
          (out @ [choice_prompt, name_prompt (default_new_path env input_path), same_name_msg])) \<and>
   (save_prompt env input_path lines out = (Inr (choice, output_path), out') \<longrightarrow>
      (choice = lit ''O'' \<and> output_path = input_path) \<or>
      (choice = lit ''S'' \<and> abspath env output_path \<noteq> abspath env input_path)) \<and>
   (save_call (process_presentation env input_path lines) = Some output_path \<longrightarrow>
      output_path = input_path \<or> abspath env output_path \<noteq> abspath env input_path)"
proof (intro conjI impI)
  assume "upper (unicode env) (strip (unicode env) line) = lit ''S'' \<and>
      abspath env (new_output_path env input_path line2) = abspath env input_path"
  then show "save_prompt env input_path (line # line2 # rest) out =
        save_prompt env input_path rest
          (out @ [choice_prompt, name_prompt (default_new_path env input_path), same_name_msg])"
    by (simp add: Let_def)
next
  assume "save_prompt env input_path lines out = (Inr (choice, output_path), out')"
  then show "(choice = lit ''O'' \<and> output_path = input_path) \<or>
      (choice = lit ''S'' \<and> abspath env output_path \<noteq> abspath env input_path)"
    by (rule save_prompt_result)
next
  assume "save_call (process_presentation env input_path lines) = Some output_path"
  then show "output_path = input_path \<or> abspath env output_path \<noteq> abspath env input_path"
    by (rule save_call_result)
qed

theorem same_path_rejected_witness:
  "upper (unicode example_env) (strip (unicode example_env) (lit ''s'')) = lit ''S'' \<and>
   abspath example_env
       (new_output_path example_env (lit ''deck.pptx'') (lit ''/home/user/deck.pptx'')) =
     abspath example_env (lit ''deck.pptx'') \<and>
   save_prompt example_env (lit ''deck.pptx'')
       [lit ''s'', lit ''/home/user/deck.pptx'', lit ''S'', lit ''copy.pptx''] [] =
     save_prompt example_env (lit ''deck.pptx'') [lit ''S'', lit ''copy.pptx'']
       [choice_prompt, name_prompt (default_new_path example_env (lit ''deck.pptx'')),
        same_name_msg] \<and>
   save_prompt example_env (lit ''deck.pptx'') [lit ''S'', lit ''copy.pptx''] [] =
     (Inr (lit ''S'', lit ''copy.pptx''),
      [choice_prompt, name_prompt (lit ''deck_modified.pptx'')]) \<and>
   abspath example_env (lit ''copy.pptx'') \<noteq> abspath example_env (lit ''deck.pptx'') \<and>
   save_call (process_presentation example_env (lit ''deck.pptx'')
       [lit ''s'', lit ''/home/user/deck.pptx'', lit ''S'', lit ''copy.pptx'']) =
     Some (lit ''copy.pptx'')"
proof -
  have h1: "upper (unicode example_env) (strip (unicode example_env) (lit ''s'')) = lit ''S'' \<and>
      abspath example_env
          (new_output_path example_env (lit ''deck.pptx'') (lit ''/home/user/deck.pptx'')) =
        abspath example_env (lit ''deck.pptx'')"
    by (simp add: run_defs)
  have h2: "save_prompt example_env (lit ''deck.pptx'') [lit ''S'', lit ''copy.pptx''] [] =
      (Inr (lit ''S'', lit ''copy.pptx''),
       [choice_prompt, name_prompt (lit ''deck_modified.pptx'')])"
    by (simp add: run_defs)
  have h3: "save_call (process_presentation example_env (lit ''deck.pptx'')
       [lit ''s'', lit ''/home/user/deck.pptx'', lit ''S'', lit ''copy.pptx'']) =
     Some (lit ''copy.pptx'')"
    by (simp add: run_defs)
  note t = same_path_rejected
    [where env = example_env and input_path = "lit ''deck.pptx''" and line = "lit ''s''"
       and ?line2.0 = "lit ''/home/user/deck.pptx''"
       and rest = "[lit ''S'', lit ''copy.pptx'']"
       and out = "[]" and lines = "[lit ''S'', lit ''copy.pptx'']" and choice = "lit ''S''"
       and output_path = "lit ''copy.pptx''"
       and out' = "[choice_prompt, name_prompt (lit ''deck_modified.pptx'')]"]
  from t h1 have c1:
    "save_prompt example_env (lit ''deck.pptx'')
       [lit ''s'', lit ''/home/user/deck.pptx'', lit ''S'', lit ''copy.pptx''] [] =
     save_prompt example_env (lit ''deck.pptx'') [lit ''S'', lit ''copy.pptx'']
       [choice_prompt, name_prompt (default_new_path example_env (lit ''deck.pptx'')),
        same_name_msg]"
    by simp
  from t h2 have c2:
    "abspath example_env (lit ''copy.pptx'') \<noteq> abspath example_env (lit ''deck.pptx'')"
    by (simp add: lit_letters)
  from h1 c1 h2 c2 h3 show ?thesis by blast
qed

text \<open>
  Claim C9, as amended. When the input path does not exist, or exists and does not end
  in \<^verbatim>\<open>.pptx\<close> after lowering its case, the program prints the one message for that
  failure, opens and saves nothing, and its exit status is 0. Otherwise the run is the
  processing of the presentation, and the exit status is 0 when no exception ends it.
\<close>

theorem validation_failure_exit:
  "(\<not> path_exists env input_file \<longrightarrow>
      main env input_file lines =
        (\<lparr>printed = [not_found_msg input_file], save_call = None, written = None,
          raised = None\<rparr>, 0)) \<and>
   (path_exists env input_file \<and> \<not> endswith (lower input_file) (lit ''.pptx'') \<longrightarrow>
      main env input_file lines =
        (\<lparr>printed = [not_pptx_msg input_file], save_call = None, written = None,
          raised = None\<rparr>, 0)) \<and>
   (path_exists env input_file \<and> endswith (lower input_file) (lit ''.pptx'') \<longrightarrow>
      fst (main env input_file lines) = process_presentation env input_file lines \<and>
      (raised (process_presentation env input_file lines) = None \<longrightarrow>
         snd (main env input_file lines) = 0))"
  by (simp add: main_def Let_def)

theorem validation_failure_exit_witness:
  "main example_env (lit ''missing.pptx'') [] =
     (\<lparr>printed = [not_found_msg (lit ''missing.pptx'')], save_call = None, written = None,
       raised = None\<rparr>, 0) \<and>
   main example_env (lit ''notes.txt'') [] =
     (\<lparr>printed = [not_pptx_msg (lit ''notes.txt'')], save_call = None, written = None,
       raised = None\<rparr>, 0) \<and>
   fst (main example_env (lit ''deck.pptx'') [(lit ''O'')]) = process_presentation example_env (lit ''deck.pptx'') [(lit ''O'')] \<and>
   snd (main example_env (lit ''deck.pptx'') [(lit ''O'')]) = 0"
proof -
  have h1: "\<not> path_exists example_env (lit ''missing.pptx'')" by (simp add: run_defs)
  have h2: "path_exists example_env (lit ''notes.txt'') \<and> \<not> endswith (lower (lit ''notes.txt'')) (lit ''.pptx'')"
    by (simp add: run_defs)
  have h3: "path_exists example_env (lit ''deck.pptx'') \<and> endswith (lower (lit ''deck.pptx'')) (lit ''.pptx'')"
    by (simp add: run_defs)
  have h4: "raised (process_presentation example_env (lit ''deck.pptx'') [(lit ''O'')]) = None"
    by (simp add: run_defs)
  from validation_failure_exit [of example_env "lit ''missing.pptx''" "[]"] h1
       validation_failure_exit [of example_env "lit ''notes.txt''" "[]"] h2
       validation_failure_exit [of example_env "lit ''deck.pptx''" "[lit ''O'']"] h3 h4
  show ?thesis by blast
qed

text \<open>
  Claim C9 as stated fails: for a path that does not exist, and for an existing path
  with another extension, the exit status is 0, not a non-zero one.
\<close>

theorem exit_code_counterexample:
  "\<not> path_exists example_env (lit ''missing.pptx'') \<and>
   snd (main example_env (lit ''missing.pptx'') []) = 0 \<and>
   path_exists example_env (lit ''notes.txt'') \<and>
   \<not> endswith (lower (lit ''notes.txt'')) (lit ''.pptx'') \<and>
   snd (main example_env (lit ''notes.txt'') []) = 0"
  by (simp add: run_defs)

text \<open>
  Claim C10. Whitespace before and after the response, including what the character
  database counts as whitespace from 128 on, does not change what the loop does. A
  response that is, stripped, \<^verbatim>\<open>O\<close> or \<^verbatim>\<open>o\<close> is taken as the overwrite choice, and
  one that is \<^verbatim>\<open>S\<close> or \<^verbatim>\<open>s\<close> as the save-as-new choice; among the responses whose
  stripped form is ASCII these are the only ones taken so. Two responses with the same
  normal form are treated alike. A response whose normal form is neither \<^verbatim>\<open>O\<close> nor
  \<^verbatim>\<open>S\<close> makes the loop print the invalid-choice message and ask again with the lines
  that follow, without an error and without choosing for the user.
\<close>

theorem choice_normalised:
  "((\<forall>c\<in>set ws1. isspace (unicode env) c) \<and> (\<forall>c\<in>set ws2. isspace (unicode env) c) \<longrightarrow>
      save_prompt env input_path ((ws1 @ line @ ws2) # rest) out =
        save_prompt env input_path (line # rest) out) \<and>
   (strip (unicode env) line = lit ''O'' \<or> strip (unicode env) line = lit ''o'' \<longrightarrow>
      save_prompt env input_path (line # rest) out =
        (Inr (lit ''O'', input_path), out @ [choice_prompt])) \<and>
   (strip (unicode env) line = lit ''S'' \<or> strip (unicode env) line = lit ''s'' \<longrightarrow>
      upper (unicode env) (strip (unicode env) line) = lit ''S'' \<and>
      save_prompt env input_path (line # rest) out =
        save_prompt env input_path (lit ''S'' # rest) out) \<and>
   ((\<forall>c\<in>set (strip (unicode env) line). c < 128) \<longrightarrow>
      (upper (unicode env) (strip (unicode env) line) = lit ''O'' \<longleftrightarrow>
         strip (unicode env) line = lit ''O'' \<or> strip (unicode env) line = lit ''o'') \<and>
      (upper (unicode env) (strip (unicode env) line) = lit ''S'' \<longleftrightarrow>
         strip (unicode env) line = lit ''S'' \<or> strip (unicode env) line = lit ''s'')) \<and>
   (upper (unicode env) (strip (unicode env) line) =
      upper (unicode env) (strip (unicode env) line') \<longrightarrow>
      save_prompt env input_path (line # rest) out =
        save_prompt env input_path (line' # rest) out) \<and>
   (upper (unicode env) (strip (unicode env) line) = lit ''O'' \<longrightarrow>
      save_prompt env input_path (line # rest) out =
        (Inr (lit ''O'', input_path), out @ [choice_prompt])) \<and>
   (upper (unicode env) (strip (unicode env) line) \<noteq> lit ''O'' \<and>
    upper (unicode env) (strip (unicode env) line) \<noteq> lit ''S'' \<longrightarrow>
      save_prompt env input_path (line # rest) out =
        save_prompt env input_path rest (out @ [choice_prompt, invalid_choice_msg]))"
proof (intro conjI impI)
  assume "(\<forall>c\<in>set ws1. isspace (unicode env) c) \<and> (\<forall>c\<in>set ws2. isspace (unicode env) c)"
  then have "strip (unicode env) (ws1 @ line @ ws2) = strip (unicode env) line"
    by (intro strip_whitespace_around) simp_all
  then show "save_prompt env input_path ((ws1 @ line @ ws2) # rest) out =
        save_prompt env input_path (line # rest) out"
    by simp
next
  assume "strip (unicode env) line = lit ''O'' \<or> strip (unicode env) line = lit ''o''"
  then have "upper (unicode env) (strip (unicode env) line) = lit ''O''"
    by (auto simp: upper_letters)
  then show "save_prompt env input_path (line # rest) out =
        (Inr (lit ''O'', input_path), out @ [choice_prompt])"
    by simp
next
  assume a: "strip (unicode env) line = lit ''S'' \<or> strip (unicode env) line = lit ''s''"
  then show u: "upper (unicode env) (strip (unicode env) line) = lit ''S''"
    by (auto simp: upper_letters)
  then show "save_prompt env input_path (line # rest) out =
        save_prompt env input_path (lit ''S'' # rest) out"
    by (simp add: strip_S upper_letters)
next
  assume "\<forall>c\<in>set (strip (unicode env) line). c < 128"
  then show "upper (unicode env) (strip (unicode env) line) = lit ''O'' \<longleftrightarrow>
         strip (unicode env) line = lit ''O'' \<or> strip (unicode env) line = lit ''o''"
    by (rule upper_ascii_O)
next
  assume "\<forall>c\<in>set (strip (unicode env) line). c < 128"
  then show "upper (unicode env) (strip (unicode env) line) = lit ''S'' \<longleftrightarrow>
         strip (unicode env) line = lit ''S'' \<or> strip (unicode env) line = lit ''s''"
    by (rule upper_ascii_S)
next
  assume "upper (unicode env) (strip (unicode env) line) =
      upper (unicode env) (strip (unicode env) line')"
  then show "save_prompt env input_path (line # rest) out =
        save_prompt env input_path (line' # rest) out"
    by simp
next
  assume "upper (unicode env) (strip (unicode env) line) = lit ''O''"
  then show "save_prompt env input_path (line # rest) out =
        (Inr (lit ''O'', input_path), out @ [choice_prompt])"
    by simp
next
  assume "upper (unicode env) (strip (unicode env) line) \<noteq> lit ''O'' \<and>
    upper (unicode env) (strip (unicode env) line) \<noteq> lit ''S''"
  then show "save_prompt env input_path (line # rest) out =
        save_prompt env input_path rest (out @ [choice_prompt, invalid_choice_msg])"
    by simp
qed

text \<open>
  A no-break space before \<^verbatim>\<open>o\<close> and a next-line control after it are stripped and
  the overwrite choice is taken; \<^verbatim>\<open>s\<close> between spaces is the save-as-new choice;
  \<^verbatim>\<open>yes\<close> is asked again.
\<close>

theorem choice_normalised_witness:
  "save_prompt example_env (lit ''deck.pptx'') [[0xA0] @ lit ''o'' @ [0x85]] [] =
     save_prompt example_env (lit ''deck.pptx'') [lit ''o''] [] \<and>
   save_prompt example_env (lit ''deck.pptx'') [lit ''o''] [] =
     (Inr (lit ''O'', lit ''deck.pptx''), [choice_prompt]) \<and>
   save_prompt example_env (lit ''deck.pptx'') [lit '' '' @ lit ''s'' @ lit '' '', lit ''copy.pptx''] [] =
     save_prompt example_env (lit ''deck.pptx'') [lit ''s'', lit ''copy.pptx''] [] \<and>
   save_prompt example_env (lit ''deck.pptx'') [lit ''s'', lit ''copy.pptx''] [] =
     save_prompt example_env (lit ''deck.pptx'') [lit ''S'', lit ''copy.pptx''] [] \<and>
   save_prompt example_env (lit ''deck.pptx'') [lit ''yes'', lit ''o''] [] =
     save_prompt example_env (lit ''deck.pptx'') [lit ''o''] [choice_prompt, invalid_choice_msg]"
proof -
  have w1: "(\<forall>c\<in>set [0xA0]. isspace (unicode example_env) c) \<and>
            (\<forall>c\<in>set [0x85]. isspace (unicode example_env) c)"
    by (simp add: run_defs)
  have w2: "(\<forall>c\<in>set (lit '' ''). isspace (unicode example_env) c) \<and>
            (\<forall>c\<in>set (lit '' ''). isspace (unicode example_env) c)"
    by (simp add: run_defs)
  have so: "strip (unicode example_env) (lit ''o'') = lit ''O'' \<or>
            strip (unicode example_env) (lit ''o'') = lit ''o''"
    by (simp add: run_defs)
  have ss: "strip (unicode example_env) (lit ''s'') = lit ''S'' \<or>
            strip (unicode example_env) (lit ''s'') = lit ''s''"
    by (simp add: run_defs)
  have sy: "upper (unicode example_env) (strip (unicode example_env) (lit ''yes'')) \<noteq> lit ''O'' \<and>
            upper (unicode example_env) (strip (unicode example_env) (lit ''yes'')) \<noteq> lit ''S''"
    by (simp add: run_defs)
  from choice_normalised
         [where ?ws1.0 = "[0xA0]" and ?ws2.0 = "[0x85]" and line = "lit ''o''"
            and env = example_env and input_path = "lit ''deck.pptx''"
            and rest = "[]" and out = "[]"] w1 so
  have c1: "save_prompt example_env (lit ''deck.pptx'') [[0xA0] @ lit ''o'' @ [0x85]] [] =
       save_prompt example_env (lit ''deck.pptx'') [lit ''o''] [] \<and>
     save_prompt example_env (lit ''deck.pptx'') [lit ''o''] [] =
       (Inr (lit ''O'', lit ''deck.pptx''), [] @ [choice_prompt])"
    by blast
  from choice_normalised
         [where ?ws1.0 = "lit '' ''" and ?ws2.0 = "lit '' ''" and line = "lit ''s''"
            and env = example_env and input_path = "lit ''deck.pptx''"
            and rest = "[lit ''copy.pptx'']" and out = "[]"] w2 ss
  have c2: "save_prompt example_env (lit ''deck.pptx'')
         [lit '' '' @ lit ''s'' @ lit '' '', lit ''copy.pptx''] [] =
       save_prompt example_env (lit ''deck.pptx'') [lit ''s'', lit ''copy.pptx''] [] \<and>
     save_prompt example_env (lit ''deck.pptx'') [lit ''s'', lit ''copy.pptx''] [] =
       save_prompt example_env (lit ''deck.pptx'') [lit ''S'', lit ''copy.pptx''] []"
    by blast
  from choice_normalised
         [where line = "lit ''yes''" and env = example_env and input_path = "lit ''deck.pptx''"
            and rest = "[lit ''o'']" and out = "[]"] sy
  have c3: "save_prompt example_env (lit ''deck.pptx'') [lit ''yes'', lit ''o''] [] =
       save_prompt example_env (lit ''deck.pptx'') [lit ''o'']
         ([] @ [choice_prompt, invalid_choice_msg])"
    by blast
  from c1 c2 c3 show ?thesis by simp
qed

end
